theory Spec2Isabelle
  imports Main "HOL-Library.AList"
begin

section \<open>Errors\<close>

text \<open>
  The error values that \<open>Decode\<close> and \<open>Encode\<close> can return.
  \<open>EOF\<close> and \<open>ErrUnexpectedEOF\<close> are the sentinels of package io,
  \<open>ErrNoProgress\<close> is io.ErrNoProgress, \<open>ErrSyntax\<close> and \<open>ErrRange\<close>
  stand for a *strconv.NumError wrapping strconv.ErrSyntax and strconv.ErrRange,
  \<open>ErrUnsupportedRespDataType\<close> is the package's own sentinel (wrapped by
  fmt.Errorf in the default case of Decode), and \<open>ErrUnsupportedType\<close> is the error
  of Encode's default case.
\<close>

datatype error =
    EOF
  | ErrUnexpectedEOF
  | ErrNoProgress
  | ErrSyntax
  | ErrRange
  | ErrUnsupportedRespDataType
  | ErrUnsupportedType

section \<open>Machine integers\<close>

text \<open>
  Go's \<open>int\<close> is taken to be 64 bits wide (as on amd64 and arm64). Values are HOL
  integers; \<open>wrap64\<close> is written wherever the source adds to an \<open>int\<close> that may be
  at the top of its range.
\<close>

definition wrap64 :: "int \<Rightarrow> int" where
  "wrap64 x = (x + 2 ^ 63) mod 2 ^ 64 - 2 ^ 63"

definition maxInt64 :: int where
  "maxInt64 = 2 ^ 63 - 1"

definition minInt64 :: int where
  "minInt64 = - (2 ^ 63)"

text \<open>
  runtime.makeslice panics when the length is negative or when the requested memory
  (length times element size) exceeds \<open>maxAlloc\<close>, which is \<open>2 ^ 48\<close> bytes on
  linux/amd64. Below that limit the allocation is taken to succeed.
\<close>

definition maxAlloc :: int where
  "maxAlloc = 2 ^ 48"

definition makeslice_ok :: "int \<Rightarrow> int \<Rightarrow> bool" where
  "makeslice_ok elemsize len \<longleftrightarrow> 0 \<le> len \<and> len * elemsize \<le> maxAlloc"

section \<open>bufio.Reader over a strings.Reader\<close>

text \<open>
  The tests build every reader as \<open>bufio.NewReader(strings.NewReader(input))\<close>.
  A reader is modelled by the bytes that are buffered and not yet read
  (\<open>b.buf[b.r:b.w]\<close>), the bytes the underlying strings.Reader still holds, and the
  requested buffer size. A strings.Reader fails only with io.EOF, and only when it has
  nothing left; every method below that sees that error through \<open>fill\<close> reports and
  clears it before it returns (\<open>readErr\<close>), so no sticky error is kept between calls.
\<close>

record reader =
  buf :: string
  rd :: string
  reqsize :: nat

definition minReadBufferSize :: nat where
  "minReadBufferSize = 16"

definition defaultBufSize :: nat where
  "defaultBufSize = 4096"

definition NewReaderSize :: "string \<Rightarrow> nat \<Rightarrow> reader" where
  "NewReaderSize s n = \<lparr>buf = [], rd = s, reqsize = n\<rparr>"

definition NewReader :: "string \<Rightarrow> reader" where
  "NewReader s = NewReaderSize s defaultBufSize"

text \<open>\<open>len(b.buf)\<close>: NewReaderSize allocates \<open>max(size, minReadBufferSize)\<close> bytes.\<close>

definition len_buf :: "reader \<Rightarrow> nat" where
  "len_buf b = max (reqsize b) minReadBufferSize"

definition Buffered :: "reader \<Rightarrow> nat" where
  "Buffered b = length (buf b)"

text \<open>Everything the reader can still deliver: buffered bytes, then the source's.\<close>

definition pending :: "reader \<Rightarrow> string" where
  "pending b = buf b @ rd b"

text \<open>
  \<open>fill\<close> slides the unread bytes to the front and reads once from the source into
  the free part of the buffer; the second component is \<open>b.err\<close> afterwards.
\<close>

definition fill :: "reader \<Rightarrow> reader \<times> error option" where
  "fill b =
     (let p = len_buf b - length (buf b) in
      if rd b = [] then (b, Some EOF)
      else (b\<lparr>buf := buf b @ take p (rd b), rd := drop p (rd b)\<rparr>, None))"

definition ReadByte :: "reader \<Rightarrow> char \<times> error option \<times> reader" where
  "ReadByte b =
     (case buf b of
        c # cs \<Rightarrow> (c, None, b\<lparr>buf := cs\<rparr>)
      | [] \<Rightarrow>
          (case fill b of
             (b', Some e) \<Rightarrow> (CHR 0x00, Some e, b')
           | (b', None) \<Rightarrow>
               (case buf b' of
                  c # cs \<Rightarrow> (c, None, b'\<lparr>buf := cs\<rparr>)
                | [] \<Rightarrow> (CHR 0x00, Some ErrNoProgress, b'))))"

text \<open>
  \<open>ReadString\<close> is \<open>collectFragments\<close> around \<open>ReadSlice\<close>: search the buffer for
  the delimiter; if it is not there and the buffer is full, keep the whole buffer as a
  fragment (ErrBufferFull) and go on; otherwise fill and search again; at the end of
  the source return what was read together with io.EOF.
\<close>

function ReadString_loop :: "char \<Rightarrow> string \<Rightarrow> reader \<Rightarrow> string \<times> error option \<times> reader" where
  "ReadString_loop delim acc b =
     (if delim \<in> set (buf b) then
        (let i = length (takeWhile (\<lambda>c. c \<noteq> delim) (buf b))
         in (acc @ take (Suc i) (buf b), None, b\<lparr>buf := drop (Suc i) (buf b)\<rparr>))
      else if len_buf b \<le> Buffered b then
        ReadString_loop delim (acc @ buf b) (b\<lparr>buf := []\<rparr>)
      else
        (case fill b of
           (b', Some e) \<Rightarrow> (acc @ buf b', Some e, b'\<lparr>buf := []\<rparr>)
         | (b', None) \<Rightarrow> ReadString_loop delim acc b'))"
  by pat_completeness auto
termination
  apply (relation "measures [\<lambda>(d, a, b). length (rd b), \<lambda>(d, a, b). length (buf b)]")
    apply simp
   apply (auto simp: fill_def Let_def Buffered_def len_buf_def minReadBufferSize_def
               split: if_splits)
   apply (case_tac "rd b"; simp)+
  done

declare ReadString_loop.simps [simp del]

definition ReadString :: "char \<Rightarrow> reader \<Rightarrow> string \<times> error option \<times> reader" where
  "ReadString delim b = ReadString_loop delim [] b"

text \<open>
  \<open>Read n\<close> is \<open>Read(p)\<close> with \<open>len(p) = n\<close>; the first component is what was
  copied into \<open>p\<close>.
\<close>

definition Read :: "nat \<Rightarrow> reader \<Rightarrow> string \<times> error option \<times> reader" where
  "Read n b =
     (if n = 0 then ([], None, b)
      else if buf b = [] then
        (if len_buf b \<le> n then
           (if rd b = [] then ([], Some EOF, b)
            else (take n (rd b), None, b\<lparr>rd := drop n (rd b)\<rparr>))
         else
           (if rd b = [] then ([], Some EOF, b)
            else
              (let b' = b\<lparr>buf := take (len_buf b) (rd b), rd := drop (len_buf b) (rd b)\<rparr>
               in (take n (buf b'), None, b'\<lparr>buf := drop n (buf b')\<rparr>))))
      else (take n (buf b), None, b\<lparr>buf := drop n (buf b)\<rparr>))"

function Discard_loop :: "nat \<Rightarrow> nat \<Rightarrow> reader \<Rightarrow> nat \<times> error option \<times> reader" where
  "Discard_loop n remain b =
     (case (if Buffered b = 0 then fill b else (b, None)) of
        (b1, e) \<Rightarrow>
          (if remain - min (Buffered b1) remain = 0 then
             (n, None, b1\<lparr>buf := drop (min (Buffered b1) remain) (buf b1)\<rparr>)
           else if e \<noteq> None then
             (n - (remain - min (Buffered b1) remain), e,
              b1\<lparr>buf := drop (min (Buffered b1) remain) (buf b1)\<rparr>)
           else
             Discard_loop n (remain - min (Buffered b1) remain)
               (b1\<lparr>buf := drop (min (Buffered b1) remain) (buf b1)\<rparr>)))"
  by pat_completeness auto
termination
  apply (relation "measure (\<lambda>(n, remain, b). remain)")
   apply simp
  apply (auto simp: fill_def Let_def Buffered_def len_buf_def minReadBufferSize_def
              split: if_splits)
  done

declare Discard_loop.simps [simp del]

definition Discard :: "nat \<Rightarrow> reader \<Rightarrow> nat \<times> error option \<times> reader" where
  "Discard n b = (if n = 0 then (0, None, b) else Discard_loop n n b)"

section \<open>util.go: readLineCRLF\<close>

abbreviation LF :: char where "LF \<equiv> CHR 0x0A"
abbreviation CR :: char where "CR \<equiv> CHR 0x0D"
abbreviation CRLF :: string where "CRLF \<equiv> [CR, LF]"

definition readLineCRLF :: "reader \<Rightarrow> string \<times> error option \<times> reader" where
  "readLineCRLF b =
     (case ReadString LF b of
        (line, err, b') \<Rightarrow>
          (if err \<noteq> None then ([], err, b')
           else if length line < 2 \<or> line ! (length line - 2) \<noteq> CR then
             ([], Some ErrUnexpectedEOF, b')
           else (take (length line - 2) line, None, b')))"

section \<open>strconv: Atoi and Itoa\<close>

definition isDigit :: "char \<Rightarrow> bool" where
  "isDigit c \<longleftrightarrow> 48 \<le> (of_char c :: int) \<and> (of_char c :: int) \<le> 57"

definition digitVal :: "char \<Rightarrow> int" where
  "digitVal c = of_char c - 48"

definition maxUint64 :: int where
  "maxUint64 = 2 ^ 64 - 1"

text \<open>
  \<open>ParseUint(s, 10, 64)\<close>: digits are accumulated from the left; the first byte that
  is not a decimal digit is a syntax error (value 0), and the first step that would
  leave the range of uint64 is a range error (value \<open>maxUint64\<close>), reported at once,
  before the rest of the string is looked at.
\<close>

fun ParseUint_loop :: "int \<Rightarrow> string \<Rightarrow> int \<times> error option" where
  "ParseUint_loop n [] = (n, None)"
| "ParseUint_loop n (c # cs) =
     (if isDigit c then
        (if maxUint64 div 10 + 1 \<le> n then (maxUint64, Some ErrRange)
         else if maxUint64 < n * 10 + digitVal c then (maxUint64, Some ErrRange)
         else ParseUint_loop (n * 10 + digitVal c) cs)
      else (0, Some ErrSyntax))"

definition ParseUint :: "string \<Rightarrow> int \<times> error option" where
  "ParseUint s = (if s = [] then (0, Some ErrSyntax) else ParseUint_loop 0 s)"

definition ParseInt :: "string \<Rightarrow> int \<times> error option" where
  "ParseInt s =
     (case s of
        [] \<Rightarrow> (0, Some ErrSyntax)
      | c # cs \<Rightarrow>
          (let neg = (c = CHR ''-'');
               s1 = (if c = CHR ''+'' \<or> c = CHR ''-'' then cs else s)
           in case ParseUint s1 of
                (un, err) \<Rightarrow>
                  (if err \<noteq> None \<and> err \<noteq> Some ErrRange then (0, err)
                   else if \<not> neg \<and> 2 ^ 63 \<le> un then (2 ^ 63 - 1, Some ErrRange)
                   else if neg \<and> 2 ^ 63 < un then (- (2 ^ 63), Some ErrRange)
                   else (if neg then - un else un, None))))"

text \<open>
  \<open>Atoi(s)\<close> is \<open>ParseInt(s, 10, 0)\<close> converted to \<open>int\<close>; the fast path that
  strconv takes for strings shorter than 19 bytes computes the same value and the same
  error. The value is returned next to the error, since the map case of Decode uses
  it without looking at the error.
\<close>

definition Atoi :: "string \<Rightarrow> int \<times> error option" where
  "Atoi s = ParseInt s"

text \<open>The decimal digits of a number that is not negative.\<close>

function digitsOf :: "int \<Rightarrow> string" where
  "digitsOf n =
     (if n < 10 then [char_of (48 + n)]
      else digitsOf (n div 10) @ [char_of (48 + n mod 10)])"
  by pat_completeness auto
termination
  by (relation "measure nat") auto

declare digitsOf.simps [simp del]

text \<open>\<open>strconv.Itoa\<close>, \<open>strconv.FormatInt(_, 10)\<close> and \<open>fmt.Sprintf("%d", _)\<close>.\<close>

definition Itoa :: "int \<Rightarrow> string" where
  "Itoa n = (if n < 0 then CHR ''-'' # digitsOf (- n) else digitsOf n)"

section \<open>Values\<close>

text \<open>
  The Go values that \<open>Encode\<close> takes as \<open>interface{}\<close> and that \<open>Decode\<close>
  returns, by dynamic type. \<open>VInt k n\<close> is the integer \<open>n\<close> of the integer type
  \<open>k\<close>; \<open>VError m\<close> is a value of a type that implements \<open>error\<close>, with message
  \<open>m\<close>; \<open>VTime ms\<close> is a time.Time whose UnixMilli is \<open>ms\<close>; a struct is the
  list of its fields in declaration order, each with its name, whether it is exported
  and its value; \<open>VOther\<close> is a value of any other type (a channel, a pointer, a
  function). A Go map is an association list with distinct keys, in the order of first
  insertion; Go ranges over a map in an unspecified order, the model in this one.
  The type parameter stands for Go's floating-point values, which are not interpreted.
\<close>

datatype int_kind =
  TInt | TInt8 | TInt16 | TInt32 | TInt64 | TUint | TUint8 | TUint16 | TUint32 | TUint64

datatype 'f val =
    VNil
  | VString string
  | VInt int_kind int
  | VFloat 'f
  | VBool bool
  | VError string
  | VSliceIface "'f val list"
  | VSliceString "string list"
  | VSliceInt int_kind "int list"
  | VSliceBool "bool list"
  | VSliceFloat "'f list"
  | VMapString "(string \<times> 'f val) list"
  | VMapInt64 "(int \<times> 'f val) list"
  | VMapIface "('f val \<times> 'f val) list"
  | VTime int
  | VStruct "(string \<times> bool \<times> 'f val) list"
  | VOther

text \<open>
  What the code takes from the standard library about floating point:
  \<open>strconv.ParseFloat(_, 64)\<close> (value and error), \<open>==\<close> on float64 (which is not
  reflexive on NaN) and \<open>fmt.Sprintf("%f", _)\<close>.
\<close>

record 'f float_ops =
  ParseFloat :: "string \<Rightarrow> 'f \<times> error option"
  float_eq :: "'f \<Rightarrow> 'f \<Rightarrow> bool"
  Sprintf_f :: "'f \<Rightarrow> string"

text \<open>
  What a call of Decode or Encode gives back: the two return values, or a run-time
  panic.
\<close>

datatype 'f result = Return "'f val" "error option" | Panic

section \<open>Map assignment on \<open>map[interface{}]interface{}\<close>\<close>

text \<open>
  \<open>tempMap[key] = value\<close> hashes the key: a key whose dynamic type is a slice or a
  map makes the runtime panic (hash of unhashable type).
\<close>

definition hashable :: "'f val \<Rightarrow> bool" where
  "hashable k =
     (case k of
        VSliceIface _ \<Rightarrow> False
      | VSliceString _ \<Rightarrow> False
      | VSliceInt _ _ \<Rightarrow> False
      | VSliceBool _ \<Rightarrow> False
      | VSliceFloat _ \<Rightarrow> False
      | VMapString _ \<Rightarrow> False
      | VMapInt64 _ \<Rightarrow> False
      | VMapIface _ \<Rightarrow> False
      | _ \<Rightarrow> True)"

text \<open>
  \<open>==\<close> on two interface values that are map keys: equal dynamic types and equal
  values. An error made by \<open>errors.New\<close> is a pointer to a fresh allocation, so the
  errors that two calls of Decode return are never equal.
\<close>

definition key_eq :: "'f float_ops \<Rightarrow> 'f val \<Rightarrow> 'f val \<Rightarrow> bool" where
  "key_eq ops k k' =
     (case k of
        VError _ \<Rightarrow> False
      | VFloat x \<Rightarrow> (case k' of VFloat y \<Rightarrow> float_eq ops x y | _ \<Rightarrow> False)
      | _ \<Rightarrow> k = k')"

fun mapassign :: "'f float_ops \<Rightarrow> ('f val \<times> 'f val) list \<Rightarrow> 'f val \<Rightarrow> 'f val
    \<Rightarrow> ('f val \<times> 'f val) list" where
  "mapassign ops [] k v = [(k, v)]"
| "mapassign ops ((k', v') # m) k v =
     (if key_eq ops k' k then (k, v) # m else (k', v') # mapassign ops m k v)"

text \<open>
  The two conversion loops at the end of the map case:
  \<open>for k, v := range tempMap { finalMap[k.(string)] = v }\<close> and the same with
  \<open>k.(int64)\<close>. A failed type assertion panics (\<open>None\<close>).
\<close>

fun toStringMap :: "(string \<times> 'f val) list \<Rightarrow> ('f val \<times> 'f val) list
    \<Rightarrow> (string \<times> 'f val) list option" where
  "toStringMap fm [] = Some fm"
| "toStringMap fm ((k, v) # m) =
     (case k of VString s \<Rightarrow> toStringMap (AList.update s v fm) m | _ \<Rightarrow> None)"

fun toInt64Map :: "(int \<times> 'f val) list \<Rightarrow> ('f val \<times> 'f val) list
    \<Rightarrow> (int \<times> 'f val) list option" where
  "toInt64Map fm [] = Some fm"
| "toInt64Map fm ((k, v) # m) =
     (case k of
        VInt t n \<Rightarrow> (if t = TInt64 then toInt64Map (AList.update n v fm) m else None)
      | _ \<Rightarrow> None)"

section \<open>decoder.go: Decode\<close>

text \<open>
  The check that follows most reads in Decode:
  \<open>if err == io.EOF || err == io.ErrUnexpectedEOF { return nil, io.ErrUnexpectedEOF }\<close>
  and then \<open>if err != nil { return nil, err }\<close>.
\<close>

definition isEOF :: "error option \<Rightarrow> bool" where
  "isEOF err \<longleftrightarrow> err = Some EOF \<or> err = Some ErrUnexpectedEOF"

definition caseSimpleString :: "reader \<Rightarrow> 'f result \<times> reader" where
  "caseSimpleString b =
     (case readLineCRLF b of
        (line, err, b1) \<Rightarrow>
          (if isEOF err then (Return VNil (Some ErrUnexpectedEOF), b1)
           else if err \<noteq> None then (Return VNil err, b1)
           else (Return (VString line) None, b1)))"

definition caseError :: "reader \<Rightarrow> 'f result \<times> reader" where
  "caseError b =
     (case readLineCRLF b of
        (line, err, b1) \<Rightarrow>
          (if isEOF err then (Return VNil (Some ErrUnexpectedEOF), b1)
           else if err \<noteq> None then (Return VNil err, b1)
           else (Return (VError line) None, b1)))"

definition caseInteger :: "reader \<Rightarrow> 'f result \<times> reader" where
  "caseInteger b =
     (case readLineCRLF b of
        (line, err, b1) \<Rightarrow>
          (if isEOF err then (Return VNil (Some ErrUnexpectedEOF), b1)
           else if err \<noteq> None then (Return VNil err, b1)
           else if length line = 0 then (Return VNil (Some ErrUnexpectedEOF), b1)
           else
             (case Atoi line of
                (xint, castErr) \<Rightarrow>
                  (if castErr \<noteq> None then (Return VNil castErr, b1)
                   else (Return (VInt TInt64 xint) None, b1)))))"

definition caseFloat :: "'f float_ops \<Rightarrow> reader \<Rightarrow> 'f result \<times> reader" where
  "caseFloat ops b =
     (case readLineCRLF b of
        (line, err, b1) \<Rightarrow>
          (if isEOF err then (Return VNil (Some ErrUnexpectedEOF), b1)
           else if err \<noteq> None then (Return VNil err, b1)
           else
             (case ParseFloat ops line of
                (xfloat, castErr) \<Rightarrow>
                  (if castErr \<noteq> None then (Return (VFloat xfloat) castErr, b1)
                   else (Return (VFloat xfloat) None, b1)))))"

text \<open>
  \<open>string(value)\<close> after \<open>reader.Read(value)\<close>: the slice was made with \<open>length\<close>
  zero bytes and Read overwrote its first bytes; the count that Read returns is dropped.
\<close>

definition readInto :: "int \<Rightarrow> string \<Rightarrow> string" where
  "readInto len data = data @ replicate (nat len - length data) (CHR 0x00)"

definition caseBulkString :: "reader \<Rightarrow> 'f result \<times> reader" where
  "caseBulkString b =
     (case readLineCRLF b of
        (lengthStr, err, b1) \<Rightarrow>
          (if isEOF err then (Return VNil (Some ErrUnexpectedEOF), b1)
           else if err \<noteq> None then (Return VNil err, b1)
           else
             (case Atoi lengthStr of
                (len, err) \<Rightarrow>
                  (if err \<noteq> None then (Return VNil err, b1)
                   else if len = - 1 then (Return VNil None, b1)
                   else if int (Buffered b1) < wrap64 (len + 2) then
                     (Return VNil (Some ErrUnexpectedEOF), b1)
                   else if \<not> makeslice_ok 1 len then (Panic, b1)
                   else
                     (case Read (nat len) b1 of
                        (data, err, b2) \<Rightarrow>
                          (if isEOF err then (Return VNil (Some ErrUnexpectedEOF), b2)
                           else if err \<noteq> None then (Return VNil err, b2)
                           else
                             (case Discard 2 b2 of
                                (_, err, b3) \<Rightarrow>
                                  (if err \<noteq> None then (Return VNil err, b3)
                                   else (Return (VString (readInto len data)) None, b3)))))))))"

definition caseVerbatimString :: "reader \<Rightarrow> 'f result \<times> reader" where
  "caseVerbatimString b =
     (case readLineCRLF b of
        (lengthStr, err, b1) \<Rightarrow>
          (if isEOF err then (Return VNil (Some ErrUnexpectedEOF), b1)
           else if err \<noteq> None then (Return VNil err, b1)
           else
             (case Atoi lengthStr of
                (len, err) \<Rightarrow>
                  (if err \<noteq> None then (Return VNil err, b1)
                   else if len = - 1 then (Return VNil None, b1)
                   else if len = 0 then (Return (VString []) None, b1)
                   else if int (Buffered b1) < wrap64 (len + 2) then
                     (Return VNil (Some ErrUnexpectedEOF), b1)
                   else if \<not> makeslice_ok 1 len then (Panic, b1)
                   else
                     (case Read (nat len) b1 of
                        (data, err, b2) \<Rightarrow>
                          (if isEOF err then (Return VNil (Some ErrUnexpectedEOF), b2)
                           else if err \<noteq> None then (Return VNil err, b2)
                           else
                             (case Discard 2 b2 of
                                (_, _, b3) \<Rightarrow>
                                  (Return (VString (readInto len data)) None, b3))))))))"

definition caseBlobError :: "reader \<Rightarrow> 'f result \<times> reader" where
  "caseBlobError b =
     (case readLineCRLF b of
        (lengthStr, err, b1) \<Rightarrow>
          (if isEOF err then (Return VNil (Some ErrUnexpectedEOF), b1)
           else if err \<noteq> None then (Return VNil err, b1)
           else
             (case Atoi lengthStr of
                (len, err) \<Rightarrow>
                  (if err \<noteq> None then (Return VNil err, b1)
                   else if int (Buffered b1) < wrap64 (len + 2) then
                     (Return VNil (Some ErrUnexpectedEOF), b1)
                   else if \<not> makeslice_ok 1 len then (Panic, b1)
                   else
                     (case Read (nat len) b1 of
                        (data, err, b2) \<Rightarrow>
                          (if isEOF err then (Return VNil (Some ErrUnexpectedEOF), b2)
                           else if err \<noteq> None then (Return VNil err, b2)
                           else
                             (case Discard 2 b2 of
                                (_, _, b3) \<Rightarrow>
                                  (Return (VError (readInto len data)) None, b3))))))))"

definition caseBoolean :: "reader \<Rightarrow> 'f result \<times> reader" where
  "caseBoolean b0 =
     (case ReadByte b0 of
        (b, err, b1) \<Rightarrow>
          (if isEOF err then (Return VNil (Some ErrUnexpectedEOF), b1)
           else if err \<noteq> None then (Return (VBool False) err, b1)
           else
             (case Discard 2 b1 of
                (_, _, b2) \<Rightarrow> (Return (VBool (b = CHR ''t'')) None, b2))))"

definition caseNull :: "reader \<Rightarrow> 'f result \<times> reader" where
  "caseNull b = (case Discard 2 b of (_, _, b1) \<Rightarrow> (Return VNil None, b1))"

text \<open>
  The array case up to the allocation: either what Decode returns at once, or the count
  and the reader in front of the first element. An \<open>interface{}\<close> takes 16 bytes.
\<close>

definition arrayHeader :: "reader \<Rightarrow> ('f result \<times> reader) + (int \<times> reader)" where
  "arrayHeader b =
     (case readLineCRLF b of
        (countStr, err, b1) \<Rightarrow>
          (if isEOF err then Inl (Return VNil (Some ErrUnexpectedEOF), b1)
           else if err \<noteq> None then Inl (Return VNil err, b1)
           else
             (case Atoi countStr of
                (count, err) \<Rightarrow>
                  (if err \<noteq> None then Inl (Return VNil err, b1)
                   else if count = - 1 then Inl (Return VNil None, b1)
                   else if \<not> makeslice_ok 16 count then Inl (Panic, b1)
                   else Inr (count, b1)))))"

text \<open>
  The map case up to the loop: \<open>line, _ := readLineCRLF(reader)\<close> and
  \<open>size, _ := strconv.Atoi(string(line))\<close>; both errors are dropped. \<open>make\<close> of a
  map does not panic on a negative or a huge size hint.
\<close>

definition mapHeader :: "reader \<Rightarrow> int \<times> reader" where
  "mapHeader b =
     (case readLineCRLF b of
        (line, _, b1) \<Rightarrow> (case Atoi line of (size', _) \<Rightarrow> (size', b1)))"

text \<open>The type switch on the key, on the pair (isAllStringKeys, isAllInt64Keys).\<close>

definition keyFlags :: "'f val \<Rightarrow> bool \<times> bool \<Rightarrow> bool \<times> bool" where
  "keyFlags key flags =
     (case key of
        VString _ \<Rightarrow> (fst flags, False)
      | VInt t _ \<Rightarrow> (if t = TInt64 then (False, snd flags) else (False, False))
      | _ \<Rightarrow> (False, False))"

definition mapFinish :: "('f val \<times> 'f val) list \<Rightarrow> bool \<times> bool \<Rightarrow> 'f result" where
  "mapFinish tempMap flags =
     (if fst flags then
        (case toStringMap [] tempMap of
           None \<Rightarrow> Panic
         | Some finalMap \<Rightarrow> Return (VMapString finalMap) None)
      else if snd flags then
        (case toInt64Map [] tempMap of
           None \<Rightarrow> Panic
         | Some finalMap \<Rightarrow> Return (VMapInt64 finalMap) None)
      else Return (VMapIface tempMap) None)"

text \<open>
  Decode calls itself for the elements of arrays and maps. The first argument bounds
  the depth of calls (\<open>None\<close> when it is used up); \<open>Decode\<close> below gives it a value
  that is always enough. \<open>arrayLoop\<close> and \<open>mapLoop\<close> are the two \<open>for\<close> loops, with
  the loop variable and the locals they update as arguments.
\<close>

fun DecodeF :: "'f float_ops \<Rightarrow> nat \<Rightarrow> reader \<Rightarrow> ('f result \<times> reader) option"
  and arrayLoop :: "'f float_ops \<Rightarrow> nat \<Rightarrow> int \<Rightarrow> int \<Rightarrow> 'f val list \<Rightarrow> reader
    \<Rightarrow> ('f result \<times> reader) option"
  and mapLoop :: "'f float_ops \<Rightarrow> nat \<Rightarrow> int \<Rightarrow> int \<Rightarrow> ('f val \<times> 'f val) list
    \<Rightarrow> bool \<times> bool \<Rightarrow> reader \<Rightarrow> ('f result \<times> reader) option" where
  "DecodeF ops 0 b = None"
| "DecodeF ops (Suc n) b =
     (case ReadByte b of
        (dataType, err, b0) \<Rightarrow>
          (if err \<noteq> None then
             (if err = Some EOF then Some (Return VNil (Some EOF), b0)
              else Some (Return VNil err, b0))
           else if dataType = CHR ''+'' then Some (caseSimpleString b0)
           else if dataType = CHR ''-'' then Some (caseError b0)
           else if dataType = CHR '':'' then Some (caseInteger b0)
           else if dataType = CHR '','' then Some (caseFloat ops b0)
           else if dataType = CHR ''$'' then Some (caseBulkString b0)
           else if dataType = CHR ''='' then Some (caseVerbatimString b0)
           else if dataType = CHR ''*'' then
             (case arrayHeader b0 of
                Inl res \<Rightarrow> Some res
              | Inr (count, b1) \<Rightarrow>
                  arrayLoop ops n 0 count (replicate (nat count) VNil) b1)
           else if dataType = CHR ''#'' then Some (caseBoolean b0)
           else if dataType = CHR ''%'' then
             (case mapHeader b0 of
                (size', b1) \<Rightarrow> mapLoop ops n 0 size' [] (True, True) b1)
           else if dataType = CHR ''!'' then Some (caseBlobError b0)
           else if dataType = CHR ''_'' then Some (caseNull b0)
           else Some (Return VNil (Some ErrUnsupportedRespDataType), b0)))"
| "arrayLoop ops 0 i count array b = None"
| "arrayLoop ops (Suc n) i count array b =
     (if i < count then
        (if Buffered b = 0 then Some (Return VNil (Some ErrUnexpectedEOF), b)
         else
           (case DecodeF ops n b of
              None \<Rightarrow> None
            | Some (Panic, b1) \<Rightarrow> Some (Panic, b1)
            | Some (Return element err, b1) \<Rightarrow>
                (if isEOF err then Some (Return VNil (Some ErrUnexpectedEOF), b1)
                 else if err \<noteq> None then Some (Return VNil err, b1)
                 else arrayLoop ops n (i + 1) count (array[nat i := element]) b1)))
      else Some (Return (VSliceIface array) None, b))"
| "mapLoop ops 0 i size' tempMap flags b = None"
| "mapLoop ops (Suc n) i size' tempMap flags b =
     (if i < size' then
        (if Buffered b = 0 then Some (Return VNil (Some ErrUnexpectedEOF), b)
         else
           (case DecodeF ops n b of
              None \<Rightarrow> None
            | Some (Panic, b1) \<Rightarrow> Some (Panic, b1)
            | Some (Return key err, b1) \<Rightarrow>
                (if isEOF err then Some (Return VNil (Some ErrUnexpectedEOF), b1)
                 else if err \<noteq> None then Some (Return VNil err, b1)
                 else
                   (case DecodeF ops n b1 of
                      None \<Rightarrow> None
                    | Some (Panic, b2) \<Rightarrow> Some (Panic, b2)
                    | Some (Return value err, b2) \<Rightarrow>
                        (if isEOF err then Some (Return VNil (Some ErrUnexpectedEOF), b2)
                         else if err \<noteq> None then Some (Return VNil err, b2)
                         else if key = VNil then
                           mapLoop ops n (wrap64 (i + 2)) size' tempMap flags b2
                         else if \<not> hashable key then Some (Panic, b2)
                         else
                           mapLoop ops n (wrap64 (i + 2)) size'
                             (mapassign ops tempMap key value) (keyFlags key flags) b2)))))
      else Some (mapFinish tempMap flags, b))"

definition Decode :: "'f float_ops \<Rightarrow> reader \<Rightarrow> ('f result \<times> reader) option" where
  "Decode ops b = DecodeF ops (Suc (2 * length (pending b))) b"

section \<open>encoder.go: Encode and encodeStruct\<close>

text \<open>
  \<open>if str, ok := elem.(string); ok && len(str) <= 12\<close> in the \<open>[]interface{}\<close>
  case.
\<close>

definition shortString :: "'f val \<Rightarrow> string option" where
  "shortString elem =
     (case elem of
        VString str \<Rightarrow> (if length str \<le> 12 then Some str else None)
      | _ \<Rightarrow> None)"

definition encodeInt :: "int \<Rightarrow> string" where
  "encodeInt n = CHR '':'' # Itoa n @ CRLF"

definition encodeFloat :: "'f float_ops \<Rightarrow> 'f \<Rightarrow> string" where
  "encodeFloat ops x = CHR '','' # Sprintf_f ops x @ CRLF"

definition encodeBool :: "bool \<Rightarrow> string" where
  "encodeBool v = (if v then ''#t'' @ CRLF else ''#f'' @ CRLF)"

text \<open>
  Each loop that appends to \<open>resp\<close> is a function of the elements still to come and
  of \<open>resp\<close>. The loops over integers, booleans and floats call Encode on an element
  whose case cannot fail, so they append what that case returns. A returned error
  comes with the empty string; the model returns the error alone.
\<close>

function Encode :: "'f float_ops \<Rightarrow> 'f val \<Rightarrow> error + string"
  and encodeIfaceElems :: "'f float_ops \<Rightarrow> 'f val list \<Rightarrow> string \<Rightarrow> error + string"
  and encodeStringMap :: "'f float_ops \<Rightarrow> (string \<times> 'f val) list \<Rightarrow> string \<Rightarrow> error + string"
  and encodeIfaceMap :: "'f float_ops \<Rightarrow> ('f val \<times> 'f val) list \<Rightarrow> string \<Rightarrow> error + string"
  and encodeStructFields :: "'f float_ops \<Rightarrow> (string \<times> bool \<times> 'f val) list \<Rightarrow> string
    \<Rightarrow> error + string" where
  "Encode ops (VString v) =
     (if length v \<le> 16 then Inr (CHR ''+'' # v @ CRLF)
      else Inr (CHR ''$'' # Itoa (int (length v)) @ CRLF @ v @ CRLF))"
| "Encode ops (VInt k v) = Inr (encodeInt v)"
| "Encode ops (VFloat v) = Inr (encodeFloat ops v)"
| "Encode ops (VBool v) = Inr (encodeBool v)"
| "Encode ops VNil = Inr (''_'' @ CRLF)"
| "Encode ops (VError v) = Inr (CHR ''-'' # v @ CRLF)"
| "Encode ops (VSliceIface v) =
     encodeIfaceElems ops v (CHR ''*'' # Itoa (int (length v)) @ CRLF)"
| "Encode ops (VSliceString v) =
     Inr (foldl (\<lambda>resp elem. resp @ CHR ''+'' # elem @ CRLF)
            (CHR ''*'' # Itoa (int (length v)) @ CRLF) v)"
| "Encode ops (VSliceInt k v) =
     Inr (foldl (\<lambda>resp elem. resp @ encodeInt elem)
            (CHR ''*'' # Itoa (int (length v)) @ CRLF) v)"
| "Encode ops (VSliceBool v) =
     Inr (foldl (\<lambda>resp elem. resp @ encodeBool elem)
            (CHR ''*'' # Itoa (int (length v)) @ CRLF) v)"
| "Encode ops (VSliceFloat v) =
     Inr (foldl (\<lambda>resp elem. resp @ encodeFloat ops elem)
            (CHR ''*'' # Itoa (int (length v)) @ CRLF) v)"
| "Encode ops (VMapString v) =
     encodeStringMap ops v (CHR ''%'' # Itoa (int (length v) * 2) @ CRLF)"
| "Encode ops (VMapIface v) =
     encodeIfaceMap ops v (CHR ''%'' # Itoa (int (length v) * 2) @ CRLF)"
| "Encode ops (VTime v) = Inr (CHR '':'' # Itoa v @ CRLF)"
| "Encode ops (VStruct s) =
     encodeStructFields ops s (CHR ''%'' # Itoa (int (length s) * 2) @ CRLF)"
| "Encode ops (VMapInt64 v) = Inl ErrUnsupportedType"
| "Encode ops VOther = Inl ErrUnsupportedType"
| "encodeIfaceElems ops [] resp = Inr resp"
| "encodeIfaceElems ops (elem # rest) resp =
     (case shortString elem of
        Some str \<Rightarrow> encodeIfaceElems ops rest (resp @ CHR ''+'' # str @ CRLF)
      | None \<Rightarrow>
          (case Encode ops elem of
             Inl err \<Rightarrow> Inl err
           | Inr encodedElem \<Rightarrow> encodeIfaceElems ops rest (resp @ encodedElem)))"
| "encodeStringMap ops [] resp = Inr resp"
| "encodeStringMap ops ((kx, vx) # rest) resp =
     (case Encode ops vx of
        Inl err \<Rightarrow> Inl err
      | Inr valueStr \<Rightarrow> encodeStringMap ops rest (resp @ CHR ''+'' # kx @ CRLF @ valueStr))"
| "encodeIfaceMap ops [] resp = Inr resp"
| "encodeIfaceMap ops ((kx, vx) # rest) resp =
     (case (case kx of VString key \<Rightarrow> Inr (CHR ''+'' # key @ CRLF) | _ \<Rightarrow> Encode ops kx) of
        Inl err \<Rightarrow> Inl err
      | Inr keyStr \<Rightarrow>
          (case Encode ops vx of
             Inl err \<Rightarrow> Inl err
           | Inr valueStr \<Rightarrow> encodeIfaceMap ops rest (resp @ keyStr @ valueStr)))"
| "encodeStructFields ops [] resp = Inr resp"
| "encodeStructFields ops ((fieldName, exported, fieldValue) # rest) resp =
     (if \<not> exported then encodeStructFields ops rest resp
      else
        (case Encode ops fieldValue of
           Inl err \<Rightarrow> Inl err
         | Inr encodedValue \<Rightarrow>
             encodeStructFields ops rest (resp @ CHR ''+'' # fieldName @ CRLF @ encodedValue)))"

  by pat_completeness auto
termination
  apply (relation "measure (\<lambda>x. case x of
      Inl (Inl (ops, v)) \<Rightarrow> size v
    | Inl (Inr (ops, vs, resp)) \<Rightarrow> size_list size vs
    | Inr (Inl (ops, m, resp)) \<Rightarrow> size_list (size_prod (\<lambda>_. 0) size) m
    | Inr (Inr (Inl (ops, m, resp))) \<Rightarrow> size_list (size_prod size size) m
    | Inr (Inr (Inr (ops, fs, resp))) \<Rightarrow>
        size_list (size_prod (\<lambda>_. 0) (size_prod (\<lambda>_. 0) size)) fs)")
   apply simp_all
  done

text \<open>
  Floating-point operations for the places where no float occurs: a closed statement
  needs some value for them, and none of its bytes reaches them.
\<close>

definition no_floats :: "unit float_ops" where
  "no_floats = \<lparr>ParseFloat = (\<lambda>_. ((), Some ErrSyntax)), float_eq = (\<lambda>_ _. True),
     Sprintf_f = (\<lambda>_. [])\<rparr>"

section \<open>The pairs that the map case decodes\<close>


section \<open>Scalars that survive a round trip\<close>

text \<open>
  The scalar values for which decoding the encoding gives the value back: Null, the
  booleans, the values of type int64, and the strings that are sent as a Bulk String
  (more than 16 bytes) or hold no line feed. A Simple String is read up to the first
  line feed, so one inside the text ends the line early.
\<close>

definition lossless_scalar :: "'f val \<Rightarrow> bool" where
  "lossless_scalar v \<longleftrightarrow>
     (case v of
        VNil \<Rightarrow> True
      | VBool _ \<Rightarrow> True
      | VInt k n \<Rightarrow> k = TInt64 \<and> minInt64 \<le> n \<and> n \<le> maxInt64
      | VString s \<Rightarrow> 16 < length s \<or> LF \<notin> set s
      | _ \<Rightarrow> False)"

section \<open>Evaluation rules\<close>

text \<open>
  The recursion equations of the two reader loops, one rule for each way through the
  loop body, and the equations of Decode and its loops for a call depth that is not
  used up. With these the simplifier runs the model on concrete bytes.
\<close>

lemma take_Suc_takeWhile:
  "x \<in> set xs \<Longrightarrow>
   take (Suc (length (takeWhile (\<lambda>c. c \<noteq> x) xs))) xs = takeWhile (\<lambda>c. c \<noteq> x) xs @ [x]"
  by (induction xs) auto

lemma drop_Suc_takeWhile:
  "x \<in> set xs \<Longrightarrow>
   drop (Suc (length (takeWhile (\<lambda>c. c \<noteq> x) xs))) xs = tl (dropWhile (\<lambda>c. c \<noteq> x) xs)"
  by (induction xs) auto

lemma ReadString_loop_found:
  "delim \<in> set (buf b) \<Longrightarrow>
   ReadString_loop delim acc b =
     (acc @ takeWhile (\<lambda>c. c \<noteq> delim) (buf b) @ [delim], None,
      b\<lparr>buf := tl (dropWhile (\<lambda>c. c \<noteq> delim) (buf b))\<rparr>)"
  by (subst ReadString_loop.simps) (simp add: take_Suc_takeWhile drop_Suc_takeWhile Let_def)

lemma ReadString_loop_full:
  "delim \<notin> set (buf b) \<Longrightarrow> len_buf b \<le> Buffered b \<Longrightarrow>
   ReadString_loop delim acc b = ReadString_loop delim (acc @ buf b) (b\<lparr>buf := []\<rparr>)"
  by (subst ReadString_loop.simps) simp

lemma ReadString_loop_eof:
  "delim \<notin> set (buf b) \<Longrightarrow> \<not> len_buf b \<le> Buffered b \<Longrightarrow> rd b = [] \<Longrightarrow>
   ReadString_loop delim acc b = (acc @ buf b, Some EOF, b\<lparr>buf := []\<rparr>)"
  by (subst ReadString_loop.simps) (simp add: fill_def)

lemma ReadString_loop_fill:
  "delim \<notin> set (buf b) \<Longrightarrow> \<not> len_buf b \<le> Buffered b \<Longrightarrow> rd b \<noteq> [] \<Longrightarrow>
   ReadString_loop delim acc b =
     ReadString_loop delim acc
       (b\<lparr>buf := buf b @ take (len_buf b - length (buf b)) (rd b),
          rd := drop (len_buf b - length (buf b)) (rd b)\<rparr>)"
  by (subst ReadString_loop.simps) (simp add: fill_def Let_def)

lemmas ReadString_loop_eval =
  ReadString_loop_found ReadString_loop_full ReadString_loop_eof ReadString_loop_fill

lemma Discard_loop_done:
  "remain \<le> Buffered b \<Longrightarrow> 0 < remain \<Longrightarrow>
   Discard_loop n remain b = (n, None, b\<lparr>buf := drop remain (buf b)\<rparr>)"
  by (subst Discard_loop.simps) (auto simp: Buffered_def min_def)

lemma Discard_loop_eof:
  "buf b = [] \<Longrightarrow> rd b = [] \<Longrightarrow> 0 < remain \<Longrightarrow>
   Discard_loop n remain b = (n - remain, Some EOF, b)"
  by (subst Discard_loop.simps) (simp add: Buffered_def fill_def)

lemma Discard_loop_fill:
  "buf b = [] \<Longrightarrow> rd b \<noteq> [] \<Longrightarrow> 0 < remain \<Longrightarrow>
   Discard_loop n remain b =
     Discard_loop n remain (b\<lparr>buf := take (len_buf b) (rd b), rd := drop (len_buf b) (rd b)\<rparr>)"
  apply (subst Discard_loop.simps)
  apply (subst (2) Discard_loop.simps)
  apply (auto simp: Buffered_def fill_def Let_def len_buf_def minReadBufferSize_def neq_Nil_conv)
  done

lemma Discard_loop_part:
  "buf b \<noteq> [] \<Longrightarrow> Buffered b < remain \<Longrightarrow>
   Discard_loop n remain b = Discard_loop n (remain - Buffered b) (b\<lparr>buf := []\<rparr>)"
  by (subst Discard_loop.simps) (auto simp: Buffered_def min_def)

lemmas Discard_loop_eval =
  Discard_loop_done Discard_loop_eof Discard_loop_fill Discard_loop_part

lemma DecodeF_pos:
  assumes "0 < n"
  shows "DecodeF ops n b =
     (case ReadByte b of
        (dataType, err, b0) \<Rightarrow>
          (if err \<noteq> None then
             (if err = Some EOF then Some (Return VNil (Some EOF), b0)
              else Some (Return VNil err, b0))
           else if dataType = CHR ''+'' then Some (caseSimpleString b0)
           else if dataType = CHR ''-'' then Some (caseError b0)
           else if dataType = CHR '':'' then Some (caseInteger b0)
           else if dataType = CHR '','' then Some (caseFloat ops b0)
           else if dataType = CHR ''$'' then Some (caseBulkString b0)
           else if dataType = CHR ''='' then Some (caseVerbatimString b0)
           else if dataType = CHR ''*'' then
             (case arrayHeader b0 of
                Inl res \<Rightarrow> Some res
              | Inr (count, b1) \<Rightarrow>
                  arrayLoop ops (n - 1) 0 count (replicate (nat count) VNil) b1)
           else if dataType = CHR ''#'' then Some (caseBoolean b0)
           else if dataType = CHR ''%'' then
             (case mapHeader b0 of
                (size', b1) \<Rightarrow> mapLoop ops (n - 1) 0 size' [] (True, True) b1)
           else if dataType = CHR ''!'' then Some (caseBlobError b0)
           else if dataType = CHR ''_'' then Some (caseNull b0)
           else Some (Return VNil (Some ErrUnsupportedRespDataType), b0)))"
proof -
  from assms obtain m where n: "n = Suc m"
    by (cases n) auto
  show ?thesis
    unfolding n by (simp only: DecodeF.simps diff_Suc_1)
qed

lemma arrayLoop_pos:
  assumes "0 < n"
  shows "arrayLoop ops n i count array b =
     (if i < count then
        (if Buffered b = 0 then Some (Return VNil (Some ErrUnexpectedEOF), b)
         else
           (case DecodeF ops (n - 1) b of
              None \<Rightarrow> None
            | Some (Panic, b1) \<Rightarrow> Some (Panic, b1)
            | Some (Return element err, b1) \<Rightarrow>
                (if isEOF err then Some (Return VNil (Some ErrUnexpectedEOF), b1)
                 else if err \<noteq> None then Some (Return VNil err, b1)
                 else arrayLoop ops (n - 1) (i + 1) count (array[nat i := element]) b1)))
      else Some (Return (VSliceIface array) None, b))"
proof -
  from assms obtain m where n: "n = Suc m"
    by (cases n) auto
  show ?thesis
    unfolding n by (simp only: arrayLoop.simps diff_Suc_1)
qed

lemma mapLoop_pos:
  assumes "0 < n"
  shows "mapLoop ops n i size' tempMap flags b =
     (if i < size' then
        (if Buffered b = 0 then Some (Return VNil (Some ErrUnexpectedEOF), b)
         else
           (case DecodeF ops (n - 1) b of
              None \<Rightarrow> None
            | Some (Panic, b1) \<Rightarrow> Some (Panic, b1)
            | Some (Return key err, b1) \<Rightarrow>
                (if isEOF err then Some (Return VNil (Some ErrUnexpectedEOF), b1)
                 else if err \<noteq> None then Some (Return VNil err, b1)
                 else
                   (case DecodeF ops (n - 1) b1 of
                      None \<Rightarrow> None
                    | Some (Panic, b2) \<Rightarrow> Some (Panic, b2)
                    | Some (Return value err, b2) \<Rightarrow>
                        (if isEOF err then Some (Return VNil (Some ErrUnexpectedEOF), b2)
                         else if err \<noteq> None then Some (Return VNil err, b2)
                         else if key = VNil then
                           mapLoop ops (n - 1) (wrap64 (i + 2)) size' tempMap flags b2
                         else if \<not> hashable key then Some (Panic, b2)
                         else
                           mapLoop ops (n - 1) (wrap64 (i + 2)) size'
                             (mapassign ops tempMap key value) (keyFlags key flags) b2)))))
      else Some (mapFinish tempMap flags, b))"
proof -
  from assms obtain m where n: "n = Suc m"
    by (cases n) auto
  show ?thesis
    unfolding n by (simp only: mapLoop.simps diff_Suc_1)
qed

lemmas eval_rules =
  Decode_def pending_def NewReader_def NewReaderSize_def ReadByte_def fill_def len_buf_def
  defaultBufSize_def minReadBufferSize_def Buffered_def readLineCRLF_def ReadString_def
  ReadString_loop_eval Discard_def Discard_loop_eval Read_def Atoi_def ParseInt_def
  ParseUint_def isDigit_def digitVal_def maxUint64_def wrap64_def makeslice_ok_def
  maxAlloc_def isEOF_def caseSimpleString_def caseError_def caseInteger_def caseFloat_def
  caseBulkString_def caseVerbatimString_def caseBlobError_def caseBoolean_def caseNull_def
  arrayHeader_def mapHeader_def keyFlags_def mapFinish_def hashable_def key_eq_def
  readInto_def Let_def DecodeF_pos arrayLoop_pos mapLoop_pos

lemmas encode_rules =
  shortString_def encodeInt_def encodeBool_def encodeFloat_def Itoa_def digitsOf.simps
  char_of_def

section \<open>Decode: end of input, Null and empty strings, panics\<close>

text \<open>
  C3. A reader that has no byte buffered and whose source is exhausted makes Decode
  return the nil value together with io.EOF, the clean end-of-input signal: not
  io.ErrUnexpectedEOF, not a malformed-input error, not a panic. The reader is left
  as it was.
\<close>

theorem Decode_empty_source:
  "buf b = [] \<Longrightarrow> rd b = [] \<Longrightarrow> Decode ops b = Some (Return VNil (Some EOF), b)"
  by (simp add: Decode_def pending_def ReadByte_def fill_def)

theorem Decode_empty_source_witness:
  "buf (NewReader []) = [] \<and> rd (NewReader []) = []
   \<and> Decode no_floats (NewReader []) = Some (Return VNil (Some EOF), NewReader [])"
  using Decode_empty_source [of "NewReader []" no_floats]
  by (simp add: NewReader_def NewReaderSize_def)

text \<open>
  C7. Decoding the bytes \<open>$-1\r\n\<close> returns the nil value with no error, decoding
  \<open>$0\r\n\r\n\<close> returns the empty string with no error, and the two results differ.
\<close>

theorem Decode_null_bulk_vs_empty_bulk:
  "Decode ops (NewReader (''$-1'' @ CRLF)) =
     Some (Return VNil None, \<lparr>buf = [], rd = [], reqsize = defaultBufSize\<rparr>)
   \<and> Decode ops (NewReader (''$0'' @ CRLF @ CRLF)) =
     Some (Return (VString []) None, \<lparr>buf = [], rd = [], reqsize = defaultBufSize\<rparr>)
   \<and> Return VNil None \<noteq> Return (VString []) None"
  by (simp add: eval_rules)

text \<open>
  C10. There are inputs whose declared count or length is an integer below -1 on which
  Decode returns neither a value nor an error: on \<open>*-2\r\n\<close> and on
  \<open>$-3\r\nxx\r\n\<close> it reaches \<open>make\<close> with a negative size and panics. So Decode is
  not total over byte inputs, and a malformed-input error is not its only outcome
  besides success.
\<close>

theorem Decode_panics_on_negative_size:
  "Decode ops (NewReader (''*-2'' @ CRLF)) =
     Some (Panic, \<lparr>buf = [], rd = [], reqsize = defaultBufSize\<rparr>)
   \<and> Decode ops (NewReader (''$-3'' @ CRLF @ ''xx'' @ CRLF)) =
     Some (Panic, \<lparr>buf = ''xx'' @ CRLF, rd = [], reqsize = defaultBufSize\<rparr>)"
  by (simp add: eval_rules)

section \<open>Decode: where the code leaves the stated contract\<close>

text \<open>
  C1. A Bulk String whose length line declares \<open>n \<ge> 0\<close> and that has fewer than
  \<open>n + 2\<close> bytes behind the length line should be reported as partial input. At
  \<open>n = 2 ^ 63 - 2\<close> the sum \<open>length + 2\<close> wraps around to the least \<open>int\<close>, the
  test \<open>reader.Buffered() < length+2\<close> is false, and \<open>make([]byte, length)\<close> panics:
  on \<open>$9223372036854775806\r\n\<close>, with nothing behind the length line, Decode does
  not return io.ErrUnexpectedEOF.
\<close>

theorem Decode_bulk_length_overflow:
  "Decode no_floats (NewReader (''$9223372036854775806'' @ CRLF)) =
     Some (Panic, \<lparr>buf = [], rd = [], reqsize = defaultBufSize\<rparr>)"
  by (simp add: eval_rules)

text \<open>
  C2. Once the tag byte has been read, running out of bytes should be reported as
  partial input for every tag. The map case drops the error of \<open>readLineCRLF\<close>: on
  the single byte \<open>%\<close> the source is exhausted while the count line is read, and
  Decode returns an empty string-keyed map with no error.
\<close>

theorem Decode_map_truncated_header:
  "Decode no_floats (NewReader ''%'') =
     Some (Return (VMapString []) None, \<lparr>buf = [], rd = [], reqsize = defaultBufSize\<rparr>)"
  by (simp add: eval_rules)

text \<open>
  C4. A count line that is complete and is not a base-10 integer should make Decode
  fail with a malformed-input error. The map case drops the error of \<open>strconv.Atoi\<close>:
  on \<open>%abc\r\n\<close> Decode returns an empty string-keyed map with no error.
\<close>

theorem Decode_map_non_numeric_count:
  "Decode no_floats (NewReader (''%abc'' @ CRLF)) =
     Some (Return (VMapString []) None, \<lparr>buf = [], rd = [], reqsize = defaultBufSize\<rparr>)"
  by (simp add: eval_rules)

section \<open>Encode: strings inside \<open>[]interface{}\<close>, structs\<close>

text \<open>
  C6, as stated, fails: a string of 13 bytes inside a \<open>[]interface{}\<close> is not emitted
  as a Bulk String. It is longer than 12 bytes, so it is passed to Encode, whose string
  case emits a Simple String up to 16 bytes.
\<close>

theorem Encode_mixed_array_13_bytes:
  "Encode no_floats (VSliceIface [VString ''aaaaaaaaaaaaa'']) =
     Inr (''*1'' @ CRLF @ ''+aaaaaaaaaaaaa'' @ CRLF)
   \<and> Encode no_floats (VSliceIface [VString ''aaaaaaaaaaaaa'']) \<noteq>
     Inr (''*1'' @ CRLF @ ''$13'' @ CRLF @ ''aaaaaaaaaaaaa'' @ CRLF)"
  by (simp add: encode_rules)

text \<open>
  C6, amended. A string element of a \<open>[]interface{}\<close> is emitted as it would be
  standing alone: wherever it stands in the slice, the loop appends a Simple String
  when the string has at most 16 bytes and a Bulk String, with the byte length as the
  declared length, when it has 17 or more. The test against 12 changes no output.
\<close>

theorem encodeIfaceElems_string:
  "encodeIfaceElems ops (VString str # rest) resp =
     encodeIfaceElems ops rest
       (resp @ (if length str \<le> 16 then CHR ''+'' # str @ CRLF
                else CHR ''$'' # Itoa (int (length str)) @ CRLF @ str @ CRLF))"
  by (simp add: shortString_def)

theorem encodeIfaceElems_string_witness:
  "encodeIfaceElems no_floats [VString ''aaaaaaaaaaaaaaaa'', VString ''aaaaaaaaaaaaaaaaa''] [] =
     Inr (''+aaaaaaaaaaaaaaaa'' @ CRLF @ ''$17'' @ CRLF @ ''aaaaaaaaaaaaaaaaa'' @ CRLF)"
  using encodeIfaceElems_string
      [of no_floats "''aaaaaaaaaaaaaaaa''" "[VString ''aaaaaaaaaaaaaaaaa'']" "[]"]
    encodeIfaceElems_string
      [of no_floats "''aaaaaaaaaaaaaaaaa''" "[]" "''+aaaaaaaaaaaaaaaa'' @ CRLF"]
  by (simp add: encode_rules)

text \<open>
  C9. The size in the header of an encoded struct should be twice the number of pairs
  that follow. \<open>encodeStruct\<close> writes \<open>val.NumField()*2\<close>, which counts the fields
  that are not exported too: for a struct with the exported field \<open>Name\<close> and the
  unexported field \<open>age\<close> the header says 4 and one pair follows.
\<close>

theorem encodeStruct_unexported_field:
  "Encode no_floats
     (VStruct [(''Name'', True, VString ''Alice''), (''age'', False, VInt TInt 25)]) =
     Inr (''%4'' @ CRLF @ ''+Name'' @ CRLF @ ''+Alice'' @ CRLF)"
  by (simp add: encode_rules)

section \<open>Atoi after Itoa\<close>

text \<open>
  \<open>strconv.Atoi\<close> reads back what \<open>strconv.Itoa\<close> writes, for every value of
  int64; the digits that Itoa writes hold no line feed.
\<close>

lemma of_char_char_of_digit:
  "0 \<le> n \<Longrightarrow> n < 10 \<Longrightarrow> (of_char (char_of (48 + n :: int)) :: int) = 48 + n"
  by (simp add: of_char_of)

lemma isDigit_char_of: "0 \<le> n \<Longrightarrow> n < 10 \<Longrightarrow> isDigit (char_of (48 + n :: int))"
  by (simp add: isDigit_def of_char_char_of_digit)

lemma digitVal_char_of: "0 \<le> n \<Longrightarrow> n < 10 \<Longrightarrow> digitVal (char_of (48 + n :: int)) = n"
  by (simp add: digitVal_def of_char_char_of_digit)

lemma ParseUint_loop_append:
  "ParseUint_loop acc (xs @ ys) =
     (case ParseUint_loop acc xs of
        (m, None) \<Rightarrow> ParseUint_loop m ys
      | (m, Some e) \<Rightarrow> (m, Some e))"
  by (induction xs arbitrary: acc) simp_all

lemma ParseUint_loop_digit:
  "0 \<le> d \<Longrightarrow> d < 10 \<Longrightarrow> 0 \<le> acc \<Longrightarrow> acc * 10 + d \<le> maxUint64 \<Longrightarrow>
   ParseUint_loop acc [char_of (48 + d)] = (acc * 10 + d, None)"
  by (simp add: isDigit_char_of digitVal_char_of maxUint64_def)

lemma ParseUint_loop_digitsOf:
  "0 \<le> n \<Longrightarrow> 0 \<le> acc \<Longrightarrow> acc * 10 ^ length (digitsOf n) + n \<le> maxUint64 \<Longrightarrow>
   ParseUint_loop acc (digitsOf n) = (acc * 10 ^ length (digitsOf n) + n, None)"
proof (induction n arbitrary: acc rule: digitsOf.induct)
  case (1 n)
  show ?case
  proof (cases "n < 10")
    case True
    have d: "digitsOf n = [char_of (48 + n)]"
      using True by (subst digitsOf.simps) simp
    show ?thesis
      using 1(2-4) True unfolding d by (simp add: ParseUint_loop_digit del: ParseUint_loop.simps)
  next
    case False
    define l where "l = length (digitsOf (n div 10))"
    have len: "length (digitsOf n) = Suc l"
      using False by (subst digitsOf.simps) (simp add: l_def)
    have n: "n = (n div 10) * 10 + n mod 10" by simp
    have nn: "0 \<le> n div 10" "0 \<le> n mod 10" "n mod 10 < 10" using 1(2) by simp_all
    have accl: "0 \<le> acc * 10 ^ l" using 1(3) by simp
    have bound: "(acc * 10 ^ l + n div 10) * 10 + n mod 10 = acc * 10 ^ Suc l + n"
      by (simp add: algebra_simps)
    have tot: "(acc * 10 ^ l + n div 10) * 10 + n mod 10 \<le> maxUint64"
      using 1(4) unfolding len bound [symmetric] .
    define x where "x = acc * 10 ^ l + n div 10"
    have x0: "0 \<le> x" using nn accl by (simp add: x_def)
    have "x * 10 + n mod 10 \<le> maxUint64" using tot by (simp add: x_def)
    then have "x \<le> maxUint64" using x0 nn by arith
    then have le: "acc * 10 ^ l + n div 10 \<le> maxUint64" by (simp add: x_def)
    have IH: "ParseUint_loop acc (digitsOf (n div 10)) = (acc * 10 ^ l + n div 10, None)"
      using 1(1) [OF False nn(1) 1(3)] le unfolding l_def by simp
    have "ParseUint_loop acc (digitsOf n) =
          ParseUint_loop (acc * 10 ^ l + n div 10) [char_of (48 + n mod 10)]"
      using False by (subst digitsOf.simps) (simp add: ParseUint_loop_append IH)
    also have "\<dots> = ((acc * 10 ^ l + n div 10) * 10 + n mod 10, None)"
      using nn accl tot
      by (intro ParseUint_loop_digit) simp_all
    finally show ?thesis unfolding len bound .
  qed
qed

lemma digitsOf_not_Nil: "digitsOf n \<noteq> []"
  by (subst digitsOf.simps) simp

lemma hd_digitsOf_isDigit: "0 \<le> n \<Longrightarrow> isDigit (hd (digitsOf n))"
proof (induction n rule: digitsOf.induct)
  case (1 n)
  show ?case
  proof (cases "n < 10")
    case True
    with 1(2) show ?thesis by (subst digitsOf.simps) (simp add: isDigit_char_of)
  next
    case False
    with 1 show ?thesis by (subst digitsOf.simps) (simp add: digitsOf_not_Nil)
  qed
qed

lemma isDigit_not_sign: "isDigit c \<Longrightarrow> c \<noteq> CHR ''+'' \<and> c \<noteq> CHR ''-''"
  by (auto simp: isDigit_def)

lemma set_digitsOf_isDigit: "0 \<le> n \<Longrightarrow> c \<in> set (digitsOf n) \<Longrightarrow> isDigit c"
proof (induction n rule: digitsOf.induct)
  case (1 n)
  show ?case
  proof (cases "n < 10")
    case True
    with 1(2,3) show ?thesis
      by (subst (asm) digitsOf.simps) (simp add: isDigit_char_of)
  next
    case False
    have "0 \<le> n mod 10" "n mod 10 < 10" "0 \<le> n div 10" using 1(2) by simp_all
    with False 1 show ?thesis
      by (subst (asm) (2) digitsOf.simps) (auto simp: isDigit_char_of)
  qed
qed

lemma ParseUint_digitsOf:
  "0 \<le> n \<Longrightarrow> n \<le> maxUint64 \<Longrightarrow> ParseUint (digitsOf n) = (n, None)"
  using ParseUint_loop_digitsOf [of n 0] by (simp add: ParseUint_def digitsOf_not_Nil)

lemma Atoi_Itoa:
  assumes "minInt64 \<le> n" "n \<le> maxInt64"
  shows "Atoi (Itoa n) = (n, None)"
proof (cases "n < 0")
  case True
  have "ParseUint (digitsOf (- n)) = (- n, None)"
    using True assms by (intro ParseUint_digitsOf) (simp_all add: minInt64_def maxUint64_def)
  then show ?thesis
    using True assms by (simp add: Atoi_def ParseInt_def Itoa_def minInt64_def)
next
  case False
  obtain c cs where cs: "digitsOf n = c # cs"
    using digitsOf_not_Nil [of n] by (cases "digitsOf n") auto
  have "isDigit c" using hd_digitsOf_isDigit [of n] False cs by simp
  then have c: "c \<noteq> CHR ''+''" "c \<noteq> CHR ''-''" using isDigit_not_sign by auto
  have "ParseUint (digitsOf n) = (n, None)"
    using False assms by (intro ParseUint_digitsOf) (simp_all add: maxInt64_def maxUint64_def)
  then show ?thesis
    using False assms c cs by (simp add: Atoi_def ParseInt_def Itoa_def maxInt64_def)
qed

lemma LF_notin_Itoa: "LF \<notin> set (Itoa n)"
proof -
  have "LF \<notin> set (digitsOf m)" if "0 \<le> m" for m
    using set_digitsOf_isDigit [OF that, of LF] by (auto simp: isDigit_def)
  then show ?thesis by (simp add: Itoa_def)
qed

lemma Itoa_not_Nil: "Itoa n \<noteq> []"
  by (simp add: Itoa_def digitsOf_not_Nil)

section \<open>Round trip of the scalars\<close>

text \<open>
  A reader made by \<open>bufio.NewReaderSize\<close> over the encoding, with a buffer that
  takes all of it: the first ReadByte fills the buffer with the whole encoding, and a
  line that is in the buffer is read without touching the source again.
\<close>

lemma ReadByte_NewReaderSize:
  "length (c # cs) \<le> max sz minReadBufferSize \<Longrightarrow>
   ReadByte (NewReaderSize (c # cs) sz) = (c, None, \<lparr>buf = cs, rd = [], reqsize = sz\<rparr>)"
  by (simp add: ReadByte_def NewReaderSize_def fill_def len_buf_def)

lemma takeWhile_line:
  "x \<notin> set line \<Longrightarrow> takeWhile (\<lambda>c. c \<noteq> x) (line @ x # rest) = line"
  by (induction line) auto

lemma dropWhile_line:
  "x \<notin> set line \<Longrightarrow> dropWhile (\<lambda>c. c \<noteq> x) (line @ x # rest) = x # rest"
  by (induction line) auto

lemma readLineCRLF_buffered:
  assumes "LF \<notin> set line"
  shows "readLineCRLF \<lparr>buf = line @ CRLF @ rest, rd = r, reqsize = sz\<rparr> =
         (line, None, \<lparr>buf = rest, rd = r, reqsize = sz\<rparr>)"
proof -
  have nl: "LF \<notin> set (line @ [CR])" using assms by simp
  have b: "line @ CRLF @ rest = (line @ [CR]) @ LF # rest" by simp
  have "ReadString LF \<lparr>buf = line @ CRLF @ rest, rd = r, reqsize = sz\<rparr> =
        (line @ CRLF, None, \<lparr>buf = rest, rd = r, reqsize = sz\<rparr>)"
    unfolding ReadString_def b
    by (subst ReadString_loop_found)
       (simp_all only: takeWhile_line [OF nl] dropWhile_line [OF nl] reader.simps, simp_all)
  then show ?thesis
    by (simp add: readLineCRLF_def nth_append)
qed

lemma Decode_Encode_short_string:
  assumes "LF \<notin> set s" "length (CHR ''+'' # s @ CRLF) \<le> max sz minReadBufferSize"
  shows "Decode ops (NewReaderSize (CHR ''+'' # s @ CRLF) sz) =
         Some (Return (VString s) None, \<lparr>buf = [], rd = [], reqsize = sz\<rparr>)"
  using readLineCRLF_buffered [OF assms(1), of "[]" "[]" sz] assms(2)
  by (simp add: Decode_def ReadByte_NewReaderSize caseSimpleString_def isEOF_def)

lemma Decode_Encode_int:
  assumes "minInt64 \<le> n" "n \<le> maxInt64"
    "length (CHR '':'' # Itoa n @ CRLF) \<le> max sz minReadBufferSize"
  shows "Decode ops (NewReaderSize (CHR '':'' # Itoa n @ CRLF) sz) =
         Some (Return (VInt TInt64 n) None, \<lparr>buf = [], rd = [], reqsize = sz\<rparr>)"
  using readLineCRLF_buffered [OF LF_notin_Itoa, of n "[]" "[]" sz] Itoa_not_Nil [of n] assms(3)
  by (simp add: Decode_def ReadByte_NewReaderSize caseInteger_def isEOF_def
        Atoi_Itoa [OF assms(1,2)])

lemma Decode_Encode_bool:
  "Decode ops (NewReaderSize (encodeBool c) sz) =
   Some (Return (VBool c) None, \<lparr>buf = [], rd = [], reqsize = sz\<rparr>)"
  by (simp add: encodeBool_def eval_rules)

lemma Decode_Encode_null:
  "Decode ops (NewReaderSize (''_'' @ CRLF) sz) =
   Some (Return VNil None, \<lparr>buf = [], rd = [], reqsize = sz\<rparr>)"
  by (simp add: eval_rules)

lemma Decode_Encode_long_string:
  assumes "s \<noteq> []" "int (length s) \<le> maxAlloc"
    "length (CHR ''$'' # Itoa (int (length s)) @ CRLF @ s @ CRLF) \<le> max sz minReadBufferSize"
  shows "Decode ops (NewReaderSize (CHR ''$'' # Itoa (int (length s)) @ CRLF @ s @ CRLF) sz) =
         Some (Return (VString s) None, \<lparr>buf = [], rd = [], reqsize = sz\<rparr>)"
proof -
  have rng: "minInt64 \<le> int (length s)" "int (length s) \<le> maxInt64"
    using assms(2) by (simp_all add: minInt64_def maxInt64_def maxAlloc_def)
  have w: "wrap64 (int (length s) + 2) = int (length s) + 2"
    using assms(2) by (simp add: wrap64_def maxAlloc_def)
  have d: "Discard 2 \<lparr>buf = CRLF, rd = [], reqsize = sz\<rparr> =
           (2, None, \<lparr>buf = [], rd = [], reqsize = sz\<rparr>)"
    by (simp add: Discard_def Discard_loop_done Buffered_def)
  show ?thesis
    using readLineCRLF_buffered [OF LF_notin_Itoa, of "int (length s)" "s @ CRLF" "[]" sz]
      assms
    by (simp add: Decode_def ReadByte_NewReaderSize caseBulkString_def isEOF_def
          Atoi_Itoa [OF rng] w Buffered_def makeslice_ok_def Read_def d readInto_def)
qed

text \<open>
  The buffer has to take the whole encoding for a Bulk String to be read: with a
  buffer of 16 bytes the 17 bytes of payload are never all buffered, and Decode
  reports partial input although the source holds everything.
\<close>

lemma Decode_bulk_string_small_buffer:
  "Decode no_floats (NewReaderSize (''$17'' @ CRLF @ ''aaaaaaaaaaaaaaaaa'' @ CRLF) 16) =
     Some (Return VNil (Some ErrUnexpectedEOF),
           \<lparr>buf = ''aaaaaaaaaaa'', rd = ''aaaaaa'' @ CRLF, reqsize = 16\<rparr>)"
  by (simp add: eval_rules)

text \<open>
  Encode has a case for each of these scalars, and what it returns is read back by
  Decode when the buffer of the reader takes all of it. The payload of a Bulk String
  is read into a slice of its length, which the runtime allocates up to \<open>maxAlloc\<close>
  bytes.
\<close>

lemma Encode_lossless_scalar:
  "lossless_scalar v \<Longrightarrow> \<exists>enc. Encode ops v = Inr enc"
  by (cases v) (simp_all add: lossless_scalar_def)

lemma Decode_of_Encode_scalar:
  assumes "lossless_scalar v" and "Encode ops v = Inr enc"
    and "length enc \<le> max sz minReadBufferSize" and "int (length enc) \<le> maxAlloc"
  shows "Decode ops (NewReaderSize enc sz) =
         Some (Return v None, \<lparr>buf = [], rd = [], reqsize = sz\<rparr>)"
proof (cases v)
  case VNil
  with assms(2) show ?thesis using Decode_Encode_null [of ops sz] by simp
next
  case (VBool c)
  with assms(2) show ?thesis using Decode_Encode_bool [of ops c sz] by auto
next
  case (VInt k n)
  with assms(1) have k: "k = TInt64" "minInt64 \<le> n" "n \<le> maxInt64"
    by (simp_all add: lossless_scalar_def)
  from VInt assms(2) have enc: "enc = CHR '':'' # Itoa n @ CRLF" by (auto simp: encodeInt_def)
  show ?thesis
    using Decode_Encode_int [OF k(2,3), of sz ops] assms(3) unfolding enc VInt k(1) by simp
next
  case (VString s)
  show ?thesis
  proof (cases "length s \<le> 16")
    case True
    with VString assms(1) have nl: "LF \<notin> set s" by (simp add: lossless_scalar_def)
    from True VString assms(2) have enc: "enc = CHR ''+'' # s @ CRLF" by auto
    show ?thesis
      using Decode_Encode_short_string [OF nl, of sz ops] assms(3) unfolding enc VString by simp
  next
    case False
    from False VString assms(2)
    have enc: "enc = CHR ''$'' # Itoa (int (length s)) @ CRLF @ s @ CRLF" by auto
    have s: "s \<noteq> []" "int (length s) \<le> maxAlloc"
      using False assms(4) unfolding enc by auto
    show ?thesis
      using Decode_Encode_long_string [OF s, of sz ops] assms(3) unfolding enc VString by simp
  qed
qed (use assms(1) in \<open>simp_all add: lossless_scalar_def\<close>)

text \<open>
  C8, as stated, fails: the string \<open>a\nb\<close> of three bytes holds a line feed and no
  CRLF; Encode sends it as the Simple String \<open>+a\nb\r\n\<close>, and Decode of these bytes
  stops at the line feed, finds no carriage return in front of it and returns
  io.ErrUnexpectedEOF, leaving \<open>b\r\n\<close> unread.
\<close>

theorem Decode_Encode_string_with_LF:
  "Encode no_floats (VString [CHR ''a'', LF, CHR ''b'']) = Inr (''+a'' @ [LF] @ ''b'' @ CRLF)
   \<and> Decode no_floats (NewReader (''+a'' @ [LF] @ ''b'' @ CRLF)) =
       Some (Return VNil (Some ErrUnexpectedEOF),
             \<lparr>buf = ''b'' @ CRLF, rd = [], reqsize = defaultBufSize\<rparr>)"
  by (simp add: eval_rules)

text \<open>
  C8, amended. For Null, a boolean, a value of type int64 and a string that has more
  than 16 bytes or holds no line feed, Encode succeeds; and when the encoding fits
  in the buffer of the reader it is read through (and is no longer than \<open>maxAlloc\<close>,
  2 ^ 48 bytes, the most that the runtime allocates), Decode returns the value with
  no error and leaves nothing unread.
\<close>

theorem Decode_Encode_scalar:
  assumes "lossless_scalar v"
  shows "\<exists>enc. Encode ops v = Inr enc
           \<and> (length enc \<le> max sz minReadBufferSize \<and> int (length enc) \<le> maxAlloc \<longrightarrow>
                Decode ops (NewReaderSize enc sz) =
                  Some (Return v None, \<lparr>buf = [], rd = [], reqsize = sz\<rparr>))"
proof -
  from assms obtain enc where enc: "Encode ops v = Inr enc"
    using Encode_lossless_scalar by blast
  have "Decode ops (NewReaderSize enc sz) =
          Some (Return v None, \<lparr>buf = [], rd = [], reqsize = sz\<rparr>)"
    if fits: "length enc \<le> max sz minReadBufferSize" "int (length enc) \<le> maxAlloc"
    using assms enc fits by (rule Decode_of_Encode_scalar)
  with enc show ?thesis by blast
qed

theorem Decode_Encode_scalar_witness:
  "lossless_scalar (VString ''aaaaaaaaaaaaaaaaa'' :: unit val)
   \<and> Encode no_floats (VString ''aaaaaaaaaaaaaaaaa'') =
       Inr (''$17'' @ CRLF @ ''aaaaaaaaaaaaaaaaa'' @ CRLF)
   \<and> length (''$17'' @ CRLF @ ''aaaaaaaaaaaaaaaaa'' @ CRLF) \<le> max 4096 minReadBufferSize
   \<and> int (length (''$17'' @ CRLF @ ''aaaaaaaaaaaaaaaaa'' @ CRLF)) \<le> maxAlloc
   \<and> Decode no_floats (NewReaderSize (''$17'' @ CRLF @ ''aaaaaaaaaaaaaaaaa'' @ CRLF) 4096) =
       Some (Return (VString ''aaaaaaaaaaaaaaaaa'') None, \<lparr>buf = [], rd = [], reqsize = 4096\<rparr>)"
  using Decode_Encode_scalar [of "VString ''aaaaaaaaaaaaaaaaa'' :: unit val" no_floats 4096]
  by (simp add: lossless_scalar_def encode_rules maxAlloc_def minReadBufferSize_def)

section \<open>Decode never reads backwards\<close>

text \<open>
  No method of the reader and no case of Decode puts bytes back: what is still to be
  read never grows, and a byte that ReadByte returns is gone.
\<close>

lemma take_Cons_drop: "take n xs = c # cs \<Longrightarrow> xs = c # cs @ drop n xs"
  by (metis append_Cons append_take_drop_id)

lemma ReadByte_ok_pending:
  "ReadByte b = (c, None, b') \<Longrightarrow> pending b = c # pending b'"
  by (auto simp: ReadByte_def fill_def pending_def Let_def
           split: list.splits if_splits dest: take_Cons_drop)

lemma ReadByte_err_pending:
  "ReadByte b = (c, Some e, b') \<Longrightarrow> pending b' = pending b"
  by (auto simp: ReadByte_def fill_def pending_def Let_def len_buf_def minReadBufferSize_def
           split: list.splits if_splits)

lemma ReadByte_pending_le:
  "ReadByte b = (c, err, b') \<Longrightarrow> length (pending b') \<le> length (pending b)"
  by (cases err) (auto dest: ReadByte_ok_pending ReadByte_err_pending)

lemma ReadString_loop_pending_le:
  "ReadString_loop d acc b = (s, e, b') \<Longrightarrow> length (pending b') \<le> length (pending b)"
proof (induction d acc b arbitrary: s e b' rule: ReadString_loop.induct)
  case (1 delim acc b)
  show ?case
  proof (cases "delim \<in> set (buf b)")
    case True
    with 1(3) show ?thesis
      by (subst (asm) ReadString_loop.simps) (auto simp: pending_def Let_def)
  next
    case nf: False
    show ?thesis
    proof (cases "len_buf b \<le> Buffered b")
      case True
      with nf 1(3) have "ReadString_loop delim (acc @ buf b) (b\<lparr>buf := []\<rparr>) = (s, e, b')"
        by (subst (asm) ReadString_loop.simps) simp
      from 1(1) [OF nf True this] show ?thesis by (simp add: pending_def)
    next
      case False
      show ?thesis
      proof (cases "rd b = []")
        case True
        with nf False 1(3) show ?thesis
          by (subst (asm) ReadString_loop.simps) (auto simp: fill_def pending_def)
      next
        case ne: False
        define b1 where "b1 = b\<lparr>buf := buf b @ take (len_buf b - length (buf b)) (rd b),
                                 rd := drop (len_buf b - length (buf b)) (rd b)\<rparr>"
        have f: "fill b = (b1, None)" using ne by (simp add: fill_def b1_def Let_def)
        with nf False 1(3) have "ReadString_loop delim acc b1 = (s, e, b')"
          by (subst (asm) ReadString_loop.simps) simp
        from 1(2) [OF nf False f [symmetric] _ this] 
        show ?thesis by (simp add: pending_def b1_def)
      qed
    qed
  qed
qed

lemma readLineCRLF_pending_le:
  "readLineCRLF b = (s, e, b') \<Longrightarrow> length (pending b') \<le> length (pending b)"
  by (auto simp: readLineCRLF_def ReadString_def split: prod.splits if_splits
           dest: ReadString_loop_pending_le)

lemma Read_pending_le:
  "Read n b = (s, e, b') \<Longrightarrow> length (pending b') \<le> length (pending b)"
  by (auto simp: Read_def pending_def Let_def split: if_splits)

lemma Discard_loop_pending_le:
  "Discard_loop n remain b = (k, e, b') \<Longrightarrow> length (pending b') \<le> length (pending b)"
proof (induction n remain b arbitrary: k e b' rule: Discard_loop.induct)
  case (1 n remain b)
  obtain b1 e1 where f: "(if Buffered b = 0 then fill b else (b, None)) = (b1, e1)"
    by (cases "if Buffered b = 0 then fill b else (b, None)") auto
  have p1: "pending b1 = pending b"
    using f by (auto simp: fill_def pending_def Let_def split: if_splits)
  define b2 where "b2 = b1\<lparr>buf := drop (min (Buffered b1) remain) (buf b1)\<rparr>"
  have p2: "length (pending b2) \<le> length (pending b)"
    unfolding p1 [symmetric] by (simp add: b2_def pending_def)
  show ?case
  proof (cases "remain - min (Buffered b1) remain = 0")
    case True
    with 1(2) f p2 show ?thesis
      by (subst (asm) Discard_loop.simps) (auto simp: b2_def)
  next
    case nz: False
    show ?thesis
    proof (cases "e1 = None")
      case False
      with nz 1(2) f p2 show ?thesis
        by (subst (asm) Discard_loop.simps) (auto simp: b2_def)
    next
      case True
      with nz 1(2) f have r: "Discard_loop n (remain - min (Buffered b1) remain) b2 = (k, e, b')"
        by (subst (asm) Discard_loop.simps) (auto simp: b2_def)
      have "length (pending b') \<le> length (pending b2)"
        using 1(1) [OF f [symmetric] nz _ r [unfolded b2_def]] True by (simp add: b2_def)
      with p2 show ?thesis by simp
    qed
  qed
qed

lemma Discard_pending_le:
  "Discard n b = (k, e, b') \<Longrightarrow> length (pending b') \<le> length (pending b)"
  by (auto simp: Discard_def split: if_splits dest: Discard_loop_pending_le)

lemmas pending_le_dest =
  readLineCRLF_pending_le Read_pending_le Discard_pending_le ReadByte_pending_le

lemma caseSimpleString_pending_le:
  "length (pending (snd (caseSimpleString b :: 'f result \<times> reader))) \<le> length (pending b)"
  by (auto simp: caseSimpleString_def split: prod.splits dest: pending_le_dest)

lemma caseError_pending_le:
  "length (pending (snd (caseError b :: 'f result \<times> reader))) \<le> length (pending b)"
  by (auto simp: caseError_def split: prod.splits dest: pending_le_dest)

lemma caseInteger_pending_le:
  "length (pending (snd (caseInteger b :: 'f result \<times> reader))) \<le> length (pending b)"
  by (auto simp: caseInteger_def split: prod.splits dest: pending_le_dest)

lemma caseFloat_pending_le:
  "length (pending (snd (caseFloat ops b))) \<le> length (pending b)"
  by (auto simp: caseFloat_def split: prod.splits dest: pending_le_dest)

lemma read_discard_pending_le:
  assumes "readLineCRLF b = (s, e, b1)" "Read n b1 = (d, e2, b2)" "Discard k b2 = (m, e3, b3)"
  shows "length (pending b1) \<le> length (pending b)" "length (pending b2) \<le> length (pending b)"
    "length (pending b3) \<le> length (pending b)"
  using assms(1) [THEN readLineCRLF_pending_le] assms(2) [THEN Read_pending_le]
    assms(3) [THEN Discard_pending_le] by simp_all

lemma caseBulkString_pending_le:
  "length (pending (snd (caseBulkString b :: 'f result \<times> reader))) \<le> length (pending b)"
  by (auto simp: caseBulkString_def split: prod.splits
           dest: read_discard_pending_le readLineCRLF_pending_le)

lemma caseVerbatimString_pending_le:
  "length (pending (snd (caseVerbatimString b :: 'f result \<times> reader))) \<le> length (pending b)"
  by (auto simp: caseVerbatimString_def split: prod.splits
           dest: read_discard_pending_le readLineCRLF_pending_le)

lemma caseBlobError_pending_le:
  "length (pending (snd (caseBlobError b :: 'f result \<times> reader))) \<le> length (pending b)"
  by (auto simp: caseBlobError_def split: prod.splits
           dest: read_discard_pending_le readLineCRLF_pending_le)

lemma caseBoolean_pending_le:
  "length (pending (snd (caseBoolean b :: 'f result \<times> reader))) \<le> length (pending b)"
proof -
  obtain c e b1 where r: "ReadByte b = (c, e, b1)" by (cases "ReadByte b") auto
  obtain k e2 b2 where d: "Discard 2 b1 = (k, e2, b2)" by (cases "Discard 2 b1") auto
  from r [THEN ReadByte_pending_le] d [THEN Discard_pending_le] r d
  show ?thesis by (simp add: caseBoolean_def)
qed

lemma caseNull_pending_le:
  "length (pending (snd (caseNull b :: 'f result \<times> reader))) \<le> length (pending b)"
  by (auto simp: caseNull_def split: prod.splits dest: pending_le_dest)

lemma arrayHeader_pending_le:
  "(arrayHeader b :: ('f result \<times> reader) + (int \<times> reader)) = Inl (r, b') \<Longrightarrow>
   length (pending b') \<le> length (pending b)"
  "(arrayHeader b :: ('f result \<times> reader) + (int \<times> reader)) = Inr (count, b') \<Longrightarrow>
   length (pending b') \<le> length (pending b)"
  by (auto simp: arrayHeader_def split: prod.splits if_splits dest: pending_le_dest)

lemma mapHeader_pending_le:
  "mapHeader b = (size', b') \<Longrightarrow> length (pending b') \<le> length (pending b)"
  by (auto simp: mapHeader_def split: prod.splits dest: pending_le_dest)

lemmas case_pending_le =
  caseSimpleString_pending_le caseError_pending_le caseInteger_pending_le caseFloat_pending_le
  caseBulkString_pending_le caseVerbatimString_pending_le caseBlobError_pending_le
  caseBoolean_pending_le caseNull_pending_le

lemma ex_pair_snd: "(\<exists>x y. p = (x, y) \<and> P y) \<longleftrightarrow> P (snd p)"
  by (cases p) auto

lemma DecodeF_Suc_shape:
  assumes "ReadByte b = (t, err, b0)"
  obtains
    (failed) "err \<noteq> None" "\<And>n. DecodeF ops (Suc n) b = Some (Return VNil err, b0)"
  | (array) "err = None" "t = CHR ''*''"
      "\<And>n. DecodeF ops (Suc n) b =
         (case arrayHeader b0 of
            Inl res \<Rightarrow> Some res
          | Inr (count, b1) \<Rightarrow> arrayLoop ops n 0 count (replicate (nat count) VNil) b1)"
  | (map) "err = None" "t = CHR ''%''"
      "\<And>n. DecodeF ops (Suc n) b =
         (case mapHeader b0 of (size', b1) \<Rightarrow> mapLoop ops n 0 size' [] (True, True) b1)"
  | (leaf) r b1 where "err = None" "\<And>n. DecodeF ops (Suc n) b = Some (r, b1)"
      "length (pending b1) \<le> length (pending b0)"
proof (cases "err \<noteq> None")
  case True
  then have "\<And>n. DecodeF ops (Suc n) b = Some (Return VNil err, b0)"
    using assms by auto
  with True show ?thesis by (rule failed)
next
  case ok: False
  show ?thesis
  proof (cases "t = CHR ''*''")
    case True
    with ok assms show ?thesis by (intro array) simp_all
  next
    case na: False
    show ?thesis
    proof (cases "t = CHR ''%''")
      case True
      with ok assms show ?thesis by (intro map) simp_all
    next
      case nm: False
      have ind: "DecodeF ops (Suc n) b = DecodeF ops (Suc 0) b" for n
        using ok na nm assms by simp
      have "\<exists>p. DecodeF ops (Suc 0) b = Some p
              \<and> length (pending (snd p)) \<le> length (pending b0)"
        using ok na nm assms by (simp add: ex_pair_snd case_pending_le)
      then obtain r b1 where "DecodeF ops (Suc 0) b = Some (r, b1)"
        "length (pending b1) \<le> length (pending b0)" by auto
      with ok ind show ?thesis by (intro leaf [of r b1]) simp_all
    qed
  qed
qed

text \<open>
  From here on the equations of Decode and of its two loops are used one step at a
  time.
\<close>

declare DecodeF.simps [simp del] arrayLoop.simps [simp del] mapLoop.simps [simp del]

lemma DecodeF_loops_pending:
  "(\<forall>b r b'. DecodeF ops n b = Some (r, b') \<longrightarrow>
      length (pending b') \<le> length (pending b)
      \<and> (\<forall>v. r = Return v None \<longrightarrow> length (pending b') < length (pending b)))
   \<and> (\<forall>i count array b r b'. arrayLoop ops n i count array b = Some (r, b') \<longrightarrow>
      length (pending b') \<le> length (pending b))
   \<and> (\<forall>i size' tempMap flags b r b'. mapLoop ops n i size' tempMap flags b = Some (r, b') \<longrightarrow>
      length (pending b') \<le> length (pending b))"
proof (induction n)
  case 0
  show ?case by (simp add: DecodeF.simps arrayLoop.simps mapLoop.simps)
next
  case (Suc n)
  have D: "length (pending b') \<le> length (pending b)"
    if "DecodeF ops n b = Some (r, b')" for b r b'
    using Suc that by blast
  have A: "length (pending b') \<le> length (pending b)"
    if "arrayLoop ops n i count array b = Some (r, b')" for i count array b r b'
    using Suc that by blast
  have M: "length (pending b') \<le> length (pending b)"
    if "mapLoop ops n i size' tempMap flags b = Some (r, b')" for i size' tempMap flags b r b'
    using Suc that by blast
  have dec: "length (pending b') \<le> length (pending b)
      \<and> (\<forall>v. r = Return v None \<longrightarrow> length (pending b') < length (pending b))"
    if res: "DecodeF ops (Suc n) b = Some (r, b')" for b r b'
  proof -
    obtain t err b0 where rb: "ReadByte b = (t, err, b0)" by (cases "ReadByte b") auto
    from rb show ?thesis
    proof (cases rule: DecodeF_Suc_shape [where ops = ops])
      case failed
      with res rb show ?thesis by (auto dest: ReadByte_pending_le)
    next
      case array
      have p: "pending b = t # pending b0" using rb array(1) by (auto dest: ReadByte_ok_pending)
      have "length (pending b') \<le> length (pending b0)"
      proof (cases "arrayHeader b0 :: ('a result \<times> reader) + (int \<times> reader)")
        case (Inl x)
        with res array(3) [of n] have "arrayHeader b0 = Inl (r, b')" by simp
        then show ?thesis by (rule arrayHeader_pending_le)
      next
        case (Inr y)
        obtain count b1 where y: "y = (count, b1)" by (cases y) auto
        from res array(3) [of n] Inr y
        have "arrayLoop ops n 0 count (replicate (nat count) VNil) b1 = Some (r, b')" by simp
        from A [OF this] arrayHeader_pending_le(2) [OF Inr [unfolded y]] show ?thesis by simp
      qed
      with p show ?thesis by simp
    next
      case map
      have p: "pending b = t # pending b0" using rb map(1) by (auto dest: ReadByte_ok_pending)
      obtain size' b1 where mh: "mapHeader b0 = (size', b1)" by (cases "mapHeader b0") auto
      from res map(3) [of n] mh
      have "mapLoop ops n 0 size' [] (True, True) b1 = Some (r, b')" by simp
      from M [OF this] mapHeader_pending_le [OF mh]
      have "length (pending b') \<le> length (pending b0)" by simp
      with p show ?thesis by simp
    next
      case (leaf r1 b1)
      have p: "pending b = t # pending b0" using rb leaf(1) by (auto dest: ReadByte_ok_pending)
      from res leaf(2) [of n] have "b' = b1" by simp
      with leaf(3) p show ?thesis by simp
    qed
  qed
  have DA: "length (pending b') \<le> length (pending b)"
    if "DecodeF ops n b = Some (r1, b1)" "arrayLoop ops n i count array b1 = Some (r, b')"
    for i count array b r b' r1 b1
    using D [OF that(1)] A [OF that(2)] by simp
  have DD: "length (pending b') \<le> length (pending b)"
    if "DecodeF ops n b = Some (r1, b1)" "DecodeF ops n b1 = Some (r, b')"
    for b r b' r1 b1
    using D [OF that(1)] D [OF that(2)] by simp
  have DDM: "length (pending b') \<le> length (pending b)"
    if "DecodeF ops n b = Some (r1, b1)" "DecodeF ops n b1 = Some (r2, b2)"
      "mapLoop ops n i size' tempMap flags b2 = Some (r, b')"
    for i size' tempMap flags b r b' r1 b1 r2 b2
    using D [OF that(1)] D [OF that(2)] M [OF that(3)] by simp
  have arr: "length (pending b') \<le> length (pending b)"
    if res: "arrayLoop ops (Suc n) i count array b = Some (r, b')" for i count array b r b'
    using res
    by (auto simp: arrayLoop.simps split: if_splits option.splits prod.splits result.splits
             intro: D DA)
  have mp: "length (pending b') \<le> length (pending b)"
    if res: "mapLoop ops (Suc n) i size' tempMap flags b = Some (r, b')"
    for i size' tempMap flags b r b'
    using res
    by (auto simp: mapLoop.simps split: if_splits option.splits prod.splits result.splits
             intro: D DD DDM)
  from dec arr mp show ?case by blast
qed

lemma DecodeF_pending_le:
  "DecodeF ops n b = Some (r, b') \<Longrightarrow> length (pending b') \<le> length (pending b)"
  using DecodeF_loops_pending [of ops n] by blast


section \<open>The bound on the depth of calls\<close>






section \<open>The map case: which map is returned\<close>


lemma mapFinish_not_error: "mapFinish tempMap flags \<noteq> Return v (Some e)"
  by (auto simp: mapFinish_def split: option.splits)





















end
